theory Spec2Isabelle
  imports Main "HOL-Library.Sublist"
begin

section \<open>Strings and the functions of the Python library the scripts call\<close>

text \<open>
  Both scripts (\<^verbatim>\<open>wayback_downloader.py\<close> and \<^verbatim>\<open>wayback_gather.py\<close>) work on Python
  \<^verbatim>\<open>str\<close> values. A string is modelled as a \<^typ>\<open>string\<close>; one \<^typ>\<open>char\<close> stands for
  one character of the Python string. Every function below treats a character either
  as one of the ASCII characters it names or as an opaque other character.
\<close>

text \<open>
  \<^verbatim>\<open>s.index(sub)\<close>: the lowest position where \<^verbatim>\<open>sub\<close> starts in \<^verbatim>\<open>s\<close>; Python raises
  \<^verbatim>\<open>ValueError\<close> when there is none, which is \<^const>\<open>None\<close> here.
\<close>

fun str_index :: "string \<Rightarrow> string \<Rightarrow> nat option" where
  "str_index [] sub = (if sub = [] then Some 0 else None)"
| "str_index (c # cs) sub =
     (if prefix sub (c # cs) then Some 0 else map_option Suc (str_index cs sub))"

text \<open>
  \<^verbatim>\<open>s[start:end]\<close> for indices that are not negative: empty when \<^verbatim>\<open>end <= start\<close>, cut at
  the length of the string.
\<close>

definition slice :: "string \<Rightarrow> nat \<Rightarrow> nat \<Rightarrow> string" where
  "slice s start end = drop start (take end s)"

text \<open>\<^verbatim>\<open>s.split('?', 1)[0]\<close>: the text before the first question mark.\<close>

definition split_query :: "string \<Rightarrow> string" where
  "split_query s = takeWhile (\<lambda>c. c \<noteq> CHR ''?'') s"

text \<open>
  \<^verbatim>\<open>os.path.basename(p)\<close> of \<^verbatim>\<open>posixpath\<close>: \<^verbatim>\<open>p[p.rfind('/') + 1:]\<close>, the text after the
  last slash (the whole of \<^verbatim>\<open>p\<close> when it has none).
\<close>

definition basename :: "string \<Rightarrow> string" where
  "basename p = rev (takeWhile (\<lambda>c. c \<noteq> CHR ''/'') (rev p))"

text \<open>
  The character class \<^verbatim>\<open>[a-zA-Z0-9_.-]\<close> and
  \<^verbatim>\<open>re.sub(r'[^a-zA-Z0-9_.-]', '_', s)\<close>, which replaces every character outside the class
  by an underscore, one for one.
\<close>

definition allowed_char :: "char \<Rightarrow> bool" where
  "allowed_char c =
     (c \<in> set ''abcdefghijklmnopqrstuvwxyzABCDEFGHIJKLMNOPQRSTUVWXYZ0123456789_.-'')"

definition sanitize :: "string \<Rightarrow> string" where
  "sanitize s = map (\<lambda>c. if allowed_char c then c else CHR ''_'') s"

section \<open>The filename deriver\<close>

text \<open>
  \<^verbatim>\<open>construct_file_name(url)\<close> is the same function, line for line, in both scripts.
  The \<^verbatim>\<open>try\<close> block catches the \<^verbatim>\<open>ValueError\<close> of either \<^verbatim>\<open>index\<close> call and returns
  \<^verbatim>\<open>None\<close>; nothing else in the block raises on a string.
\<close>

definition construct_file_name :: "string \<Rightarrow> string option" where
  "construct_file_name url =
     (case str_index url ''/web/'' of
        None \<Rightarrow> None
      | Some i \<Rightarrow>
          (case str_index url ''if_/'' of
             None \<Rightarrow> None
           | Some end \<Rightarrow>
               (let start = i + 5;
                    timestamp = slice url start end;
                    path = split_query (drop (end + 4) url);
                    file_name = basename path;
                    sanitized_file_name = sanitize file_name
                in Some (timestamp @ ''_'' @ sanitized_file_name))))"

section \<open>The world outside the scripts\<close>

text \<open>
  The scripts read and write files and issue HTTP requests. The working directory is a
  map from a path, as the script names it, to the content of the file; a file holds
  either the body of a download or a JSON document written by \<^verbatim>\<open>json.dump\<close>, which is
  identified with the document that \<^verbatim>\<open>json.load\<close> reads back from it. Opening a
  path for writing can fail: \<open>writable\<close> says for which paths \<^verbatim>\<open>open(path, 'w')\<close> succeeds,
  and for the others it raises \<^verbatim>\<open>OSError\<close> (a directory of the path that is missing, a
  name that is too long, a permission that is refused) and leaves the files as they are.
  The scripts create and remove no directory, so \<open>writable\<close> does not change. A file
  that exists is taken to be readable. The log \<open>requests\<close> lists the URLs of the
  \<^verbatim>\<open>requests.get\<close> calls made so far, oldest first.
\<close>

datatype json =
    JNull
  | JBool bool
  | JNum int
  | JStr string
  | JArr "json list"
  | JObj "(string \<times> json) list"

datatype content = Body string | Document json

record world =
  files :: "string \<rightharpoonup> content"
  requests :: "string list"
  writable :: "string \<Rightarrow> bool"

text \<open>
  The exceptions that nothing in the scripts catches, and the ways a call can end.
\<close>

datatype py_error = AttributeError | KeyError | TypeError | OSError

datatype outcome = Returned | Exit nat | Uncaught py_error

text \<open>
  \<^verbatim>\<open>requests.get(url, timeout=10)\<close> followed by \<^verbatim>\<open>raise_for_status()\<close> either yields
  the body or raises a \<^verbatim>\<open>RequestException\<close> \<^verbatim>\<open>e\<close>, of which the scripts keep \<^verbatim>\<open>str(e)\<close>.
  The network is a function of the number of requests made before and of the URL, so
  that the same URL may fail at one attempt and succeed at another.
\<close>

datatype response = Ok string | Failed string

type_synonym net = "nat \<Rightarrow> string \<Rightarrow> response"

section \<open>The status document and the download executor\<close>

text \<open>
  \<^verbatim>\<open>status = {"downloaded": [], "skipped": [], "errors": []}\<close>; an entry of \<open>errors\<close> is
  the dictionary \<^verbatim>\<open>{"url": url, "error": message}\<close>, kept here as the pair.
\<close>

record status =
  downloaded :: "string list"
  skipped :: "string list"
  errors :: "(string \<times> string) list"

definition init_status :: status where
  "init_status = \<lparr>downloaded = [], skipped = [], errors = []\<rparr>"

text \<open>The dictionary as \<^verbatim>\<open>json.dump\<close> sees it, keys in insertion order.\<close>

definition error_json :: "string \<times> string \<Rightarrow> json" where
  "error_json e = JObj [(''url'', JStr (fst e)), (''error'', JStr (snd e))]"

definition status_dict :: "status \<Rightarrow> (string \<times> json) list" where
  "status_dict st =
     [(''downloaded'', JArr (map JStr (downloaded st))),
      (''skipped'', JArr (map JStr (skipped st))),
      (''errors'', JArr (map error_json (errors st)))]"

definition status_json :: "status \<Rightarrow> json" where
  "status_json st = JObj (status_dict st)"

text \<open>
  \<^verbatim>\<open>create_status_file(status, base_url, debug)\<close> writes the document to
  \<^verbatim>\<open>status_{sanitized_url}.json\<close> in the working directory, replacing a file of that name;
  the \<^verbatim>\<open>OSError\<close> of \<^verbatim>\<open>open\<close> is not caught.
\<close>

definition status_file_name :: "string \<Rightarrow> string" where
  "status_file_name base_url = ''status_'' @ sanitize base_url @ ''.json''"

definition create_status_file :: "status \<Rightarrow> string \<Rightarrow> world \<Rightarrow> py_error + world" where
  "create_status_file st base_url w =
     (if writable w (status_file_name base_url)
      then Inr (w\<lparr>files := (files w)(status_file_name base_url \<mapsto> Document (status_json st))\<rparr>)
      else Inl OSError)"

text \<open>
  The body of the \<^verbatim>\<open>for url in urls\<close> loop of \<^verbatim>\<open>downloader\<close> (the same in both scripts).
  A derived file name is never the empty string, so \<^verbatim>\<open>if file_name:\<close> tests for \<^verbatim>\<open>None\<close>.
  The \<^verbatim>\<open>try\<close> block has one handler, for \<^verbatim>\<open>RequestException\<close>: the \<^verbatim>\<open>OSError\<close> of
  \<^verbatim>\<open>open(file_path, 'wb')\<close>, raised after the request has been made, leaves the loop and
  the function.
\<close>

definition download_one ::
  "net \<Rightarrow> string \<Rightarrow> status \<times> world \<Rightarrow> py_error \<times> world + status \<times> world" where
  "download_one net url sw =
     (let st = fst sw; w = snd sw in
      case construct_file_name url of
        Some file_name \<Rightarrow>
          if files w file_name \<noteq> None
          then Inr (st\<lparr>skipped := skipped st @ [file_name]\<rparr>, w)
          else (case net (length (requests w)) url of
                  Ok body \<Rightarrow>
                    if writable w file_name
                    then Inr (st\<lparr>downloaded := downloaded st @ [file_name]\<rparr>,
                              w\<lparr>files := (files w)(file_name \<mapsto> Body body),
                                requests := requests w @ [url]\<rparr>)
                    else Inl (OSError, w\<lparr>requests := requests w @ [url]\<rparr>)
                | Failed e \<Rightarrow>
                    Inr (st\<lparr>errors := errors st @ [(url, e)]\<rparr>,
                         w\<lparr>requests := requests w @ [url]\<rparr>))
      | None \<Rightarrow> Inr (st\<lparr>errors := errors st @ [(url, ''Invalid file name'')]\<rparr>, w))"

fun downloader_loop ::
  "net \<Rightarrow> string list \<Rightarrow> status \<times> world \<Rightarrow> py_error \<times> world + status \<times> world" where
  "downloader_loop net [] sw = Inr sw"
| "downloader_loop net (url # urls) sw =
     (case download_one net url sw of
        Inl err \<Rightarrow> Inl err
      | Inr sw' \<Rightarrow> downloader_loop net urls sw')"

text \<open>
  \<^verbatim>\<open>downloader(urls, debug, base_url)\<close>. The Python function returns nothing; the model
  returns the status it has written together with the world it leaves, or the
  exception that ended it together with the world at that moment, in which
  \<^verbatim>\<open>create_status_file\<close> has not run.
\<close>

definition downloader ::
  "net \<Rightarrow> string list \<Rightarrow> string \<Rightarrow> world \<Rightarrow> py_error \<times> world + status \<times> world" where
  "downloader net urls base_url w =
     (case downloader_loop net urls (init_status, w) of
        Inl err \<Rightarrow> Inl err
      | Inr sw \<Rightarrow>
          (case create_status_file (fst sw) base_url (snd sw) of
             Inl err \<Rightarrow> Inl (err, snd sw)
           | Inr w' \<Rightarrow> Inr (fst sw, w')))"

section \<open>The archive lookup\<close>

text \<open>
  \<^verbatim>\<open>get_all_links\<close> leaves the process with \<^verbatim>\<open>exit(1)\<close> when the request or the parsing
  of its JSON fails, and when no link is found. The parsed response is a list of rows,
  each a list of strings, as the CDX endpoint returns them; \<^const>\<open>None\<close> stands for
  the failed request.
\<close>

definition header :: "string list" where
  "header = [''timestamp'', ''original'']"

definition snapshot_url :: "string list \<Rightarrow> string" where
  "snapshot_url i = ''https://web.archive.org/web/'' @ i ! 0 @ ''if_/'' @ i ! 1"

text \<open>\<^verbatim>\<open>wayback_downloader.py\<close>: one comprehension that leaves out every header row.\<close>

definition url_list_downloader :: "string list list \<Rightarrow> string list" where
  "url_list_downloader obj = map snapshot_url (filter (\<lambda>i. length i > 1 \<and> i \<noteq> header) obj)"

text \<open>\<^verbatim>\<open>wayback_gather.py\<close>: pops a leading header row, then the comprehension.\<close>

definition url_list_gather :: "string list list \<Rightarrow> string list" where
  "url_list_gather obj =
     (let obj' = (if obj \<noteq> [] \<and> hd obj = header then tl obj else obj)
      in map snapshot_url (filter (\<lambda>i. length i > 1) obj'))"

definition get_all_links_downloader :: "string list list option \<Rightarrow> outcome + string list" where
  "get_all_links_downloader response =
     (case response of
        None \<Rightarrow> Inl (Exit 1)
      | Some obj \<Rightarrow>
          (let url_list = url_list_downloader obj
           in if url_list = [] then Inl (Exit 1) else Inr url_list))"

definition get_all_links_gather :: "string list list option \<Rightarrow> outcome + string list" where
  "get_all_links_gather response =
     (case response of
        None \<Rightarrow> Inl (Exit 1)
      | Some obj \<Rightarrow>
          (let url_list = url_list_gather obj
           in if url_list = [] then Inl (Exit 1) else Inr url_list))"

section \<open>The retry runner\<close>

text \<open>
  \<^verbatim>\<open>retry_failed_downloads\<close> works on whatever \<^verbatim>\<open>json.load\<close> returns, so the document
  is a \<^typ>\<open>json\<close> value and every operation on it can raise as Python does on a value
  of the wrong type. An exception that nothing catches ends the process.
\<close>

text \<open>\<^verbatim>\<open>d[k] = v\<close> on a dictionary: the value is replaced where the key is, or added last.\<close>

fun dict_set :: "string \<Rightarrow> json \<Rightarrow> (string \<times> json) list \<Rightarrow> (string \<times> json) list" where
  "dict_set k v [] = [(k, v)]"
| "dict_set k v (p # ps) = (if fst p = k then (k, v) # ps else p # dict_set k v ps)"

text \<open>
  \<^verbatim>\<open>for item in x\<close>: a list gives its elements, a dictionary its keys, a string its
  characters; nothing else is iterable.
\<close>

fun py_iter :: "json \<Rightarrow> py_error + json list" where
  "py_iter (JArr xs) = Inr xs"
| "py_iter (JObj kvs) = Inr (map (\<lambda>kv. JStr (fst kv)) kvs)"
| "py_iter (JStr s) = Inr (map (\<lambda>c. JStr [c]) s)"
| "py_iter _ = Inl TypeError"

text \<open>\<^verbatim>\<open>item["url"]\<close>: only a dictionary can be indexed with a string.\<close>

fun item_url :: "json \<Rightarrow> py_error + json" where
  "item_url (JObj kvs) = (case map_of kvs ''url'' of None \<Rightarrow> Inl KeyError | Some v \<Rightarrow> Inr v)"
| "item_url _ = Inl TypeError"

text \<open>\<^verbatim>\<open>[item["url"] for item in status_data.get("errors", [])]\<close>\<close>

fun urls_of :: "json list \<Rightarrow> py_error + json list" where
  "urls_of [] = Inr []"
| "urls_of (item # items) =
     (case item_url item of
        Inl e \<Rightarrow> Inl e
      | Inr v \<Rightarrow> (case urls_of items of Inl e \<Rightarrow> Inl e | Inr vs \<Rightarrow> Inr (v # vs)))"

definition failed_urls :: "(string \<times> json) list \<Rightarrow> py_error + json list" where
  "failed_urls doc =
     (case py_iter (case map_of doc ''errors'' of None \<Rightarrow> JArr [] | Some v \<Rightarrow> v) of
        Inl e \<Rightarrow> Inl e
      | Inr items \<Rightarrow> urls_of items)"

text \<open>\<^verbatim>\<open>status_data["downloaded"].append(file_name)\<close>\<close>

definition append_downloaded ::
  "(string \<times> json) list \<Rightarrow> string \<Rightarrow> py_error + (string \<times> json) list" where
  "append_downloaded doc file_name =
     (case map_of doc ''downloaded'' of
        None \<Rightarrow> Inl KeyError
      | Some (JArr xs) \<Rightarrow> Inr (dict_set ''downloaded'' (JArr (xs @ [JStr file_name])) doc)
      | Some _ \<Rightarrow> Inl AttributeError)"

text \<open>
  \<^verbatim>\<open>status_data["errors"] = [e for e in status_data["errors"] if e["url"] != url]\<close>,
  where \<^verbatim>\<open>url\<close> is a string: a value of another type is never equal to it.
\<close>

fun keep_entries :: "json list \<Rightarrow> string \<Rightarrow> py_error + json list" where
  "keep_entries [] url = Inr []"
| "keep_entries (e # es) url =
     (case item_url e of
        Inl err \<Rightarrow> Inl err
      | Inr v \<Rightarrow>
          (case keep_entries es url of
             Inl err \<Rightarrow> Inl err
           | Inr es' \<Rightarrow> Inr (if v \<noteq> JStr url then e # es' else es')))"

definition remove_errors ::
  "(string \<times> json) list \<Rightarrow> string \<Rightarrow> py_error + (string \<times> json) list" where
  "remove_errors doc url =
     (case map_of doc ''errors'' of
        None \<Rightarrow> Inl KeyError
      | Some v \<Rightarrow>
          (case py_iter v of
             Inl err \<Rightarrow> Inl err
           | Inr items \<Rightarrow>
               (case keep_entries items url of
                  Inl err \<Rightarrow> Inl err
                | Inr es' \<Rightarrow> Inr (dict_set ''errors'' (JArr es') doc))))"

text \<open>
  \<^verbatim>\<open>for error_entry in status_data["errors"]:
      if error_entry["url"] == url: error_entry["error"] = str(e)\<close>
  The entries of a list are changed where they stand; the keys of a dictionary and
  the characters of a string cannot be indexed with \<^verbatim>\<open>"url"\<close>.
\<close>

fun set_error :: "json \<Rightarrow> string \<Rightarrow> json" where
  "set_error (JObj kvs) msg = JObj (dict_set ''error'' (JStr msg) kvs)"
| "set_error j msg = j"

fun update_entries :: "json list \<Rightarrow> string \<Rightarrow> string \<Rightarrow> py_error + json list" where
  "update_entries [] url msg = Inr []"
| "update_entries (e # es) url msg =
     (case item_url e of
        Inl err \<Rightarrow> Inl err
      | Inr v \<Rightarrow>
          (case update_entries es url msg of
             Inl err \<Rightarrow> Inl err
           | Inr es' \<Rightarrow> Inr ((if v = JStr url then set_error e msg else e) # es')))"

definition update_errors ::
  "(string \<times> json) list \<Rightarrow> string \<Rightarrow> string \<Rightarrow> py_error + (string \<times> json) list" where
  "update_errors doc url msg =
     (case map_of doc ''errors'' of
        None \<Rightarrow> Inl KeyError
      | Some (JArr es) \<Rightarrow>
          (case update_entries es url msg of
             Inl err \<Rightarrow> Inl err
           | Inr es' \<Rightarrow> Inr (dict_set ''errors'' (JArr es') doc))
      | Some v \<Rightarrow>
          (case py_iter v of
             Inl err \<Rightarrow> Inl err
           | Inr items \<Rightarrow>
               (case update_entries items url msg of
                  Inl err \<Rightarrow> Inl err
                | Inr _ \<Rightarrow> Inr doc)))"

text \<open>
  The body of \<^verbatim>\<open>for url in failed_urls\<close>. On a string it is \<^verbatim>\<open>construct_file_name\<close>
  and the download; there is no \<^verbatim>\<open>else\<close> for a URL without a file name. On a list,
  \<^verbatim>\<open>url.index\<close> raises the \<^verbatim>\<open>ValueError\<close> that is caught unless both markers are
  elements, and then \<^verbatim>\<open>url[end + 4:].split\<close> raises \<^verbatim>\<open>AttributeError\<close>; any other value has
  no \<^verbatim>\<open>index\<close>. The \<^verbatim>\<open>except\<close> clause catches the \<^verbatim>\<open>RequestException\<close> only, so the
  \<^verbatim>\<open>OSError\<close> of \<^verbatim>\<open>open(file_path, 'wb')\<close> and the exceptions of the operations on the
  document leave the function. An uncaught exception leaves the world as it is at that
  moment.
\<close>

fun retry_one ::
  "net \<Rightarrow> json \<Rightarrow> (string \<times> json) list \<times> world \<Rightarrow>
   py_error \<times> world + (string \<times> json) list \<times> world" where
  "retry_one net (JStr url) (doc, w) =
     (case construct_file_name url of
        None \<Rightarrow> Inr (doc, w)
      | Some file_name \<Rightarrow>
          if files w file_name \<noteq> None then Inr (doc, w)
          else (case net (length (requests w)) url of
                  Ok body \<Rightarrow>
                    if \<not> writable w file_name
                    then Inl (OSError, w\<lparr>requests := requests w @ [url]\<rparr>)
                    else
                    (let w' = w\<lparr>files := (files w)(file_name \<mapsto> Body body),
                                 requests := requests w @ [url]\<rparr>
                     in case append_downloaded doc file_name of
                          Inl err \<Rightarrow> Inl (err, w')
                        | Inr doc' \<Rightarrow>
                            (case remove_errors doc' url of
                               Inl err \<Rightarrow> Inl (err, w')
                             | Inr doc'' \<Rightarrow> Inr (doc'', w')))
                | Failed msg \<Rightarrow>
                    (let w' = w\<lparr>requests := requests w @ [url]\<rparr>
                     in case update_errors doc url msg of
                          Inl err \<Rightarrow> Inl (err, w')
                        | Inr doc' \<Rightarrow> Inr (doc', w'))))"
| "retry_one net (JArr xs) (doc, w) =
     (if JStr ''/web/'' \<in> set xs \<and> JStr ''if_/'' \<in> set xs
      then Inl (AttributeError, w) else Inr (doc, w))"
| "retry_one net _ (doc, w) = Inl (AttributeError, w)"

fun retry_loop ::
  "net \<Rightarrow> json list \<Rightarrow> (string \<times> json) list \<times> world \<Rightarrow>
   py_error \<times> world + (string \<times> json) list \<times> world" where
  "retry_loop net [] s = Inr s"
| "retry_loop net (url # urls) s =
     (case retry_one net url s of
        Inl err \<Rightarrow> Inl err
      | Inr s' \<Rightarrow> retry_loop net urls s')"

text \<open>
  \<^verbatim>\<open>json.load(file)\<close>: what the script wrote reads back as it was; the text of a download
  is parsed by \<open>load\<close>, which is \<^const>\<open>None\<close> where Python raises \<^verbatim>\<open>JSONDecodeError\<close>.
\<close>

fun json_load :: "(string \<Rightarrow> json option) \<Rightarrow> content \<Rightarrow> json option" where
  "json_load load (Document j) = Some j"
| "json_load load (Body s) = load s"

text \<open>
  \<^verbatim>\<open>retry_failed_downloads(status_file, debug)\<close>: \<^verbatim>\<open>exit(1)\<close> for a missing file and for a
  \<^verbatim>\<open>JSONDecodeError\<close>; \<^verbatim>\<open>status_data.get\<close> exists on a dictionary only; an early return
  when there is no failed URL; otherwise the loop and the rewriting of the same file,
  whose \<^verbatim>\<open>open(status_file, 'w')\<close> can raise \<^verbatim>\<open>OSError\<close> as well.
\<close>

definition retry_failed_downloads ::
  "(string \<Rightarrow> json option) \<Rightarrow> net \<Rightarrow> string \<Rightarrow> world \<Rightarrow> outcome \<times> world" where
  "retry_failed_downloads load net status_file w =
     (case files w status_file of
        None \<Rightarrow> (Exit 1, w)
      | Some c \<Rightarrow>
          (case json_load load c of
             None \<Rightarrow> (Exit 1, w)
           | Some (JObj doc) \<Rightarrow>
               (case failed_urls doc of
                  Inl err \<Rightarrow> (Uncaught err, w)
                | Inr failed \<Rightarrow>
                    if failed = [] then (Returned, w)
                    else (case retry_loop net failed (doc, w) of
                            Inl (err, w') \<Rightarrow> (Uncaught err, w')
                          | Inr (doc', w') \<Rightarrow>
                              if writable w' status_file
                              then (Returned,
                                    w'\<lparr>files := (files w')(status_file \<mapsto> Document (JObj doc'))\<rparr>)
                              else (Uncaught OSError, w')))
           | Some _ \<Rightarrow> (Uncaught AttributeError, w)))"


section \<open>Notions used to state the claims\<close>

text \<open>The number of entries of a status document, over its three lists.\<close>

definition entries :: "status \<Rightarrow> nat" where
  "entries st = length (downloaded st) + length (skipped st) + length (errors st)"

text \<open>The derived file names of the URLs of a list that have one, in order.\<close>

definition file_names :: "string list \<Rightarrow> string list" where
  "file_names urls = List.map_filter construct_file_name urls"





text \<open>Worlds and networks of the concrete scenarios.\<close>

definition empty_world :: world where
  "empty_world = \<lparr>files = Map.empty, requests = [], writable = (\<lambda>p. True)\<rparr>"

text \<open>An empty directory without subdirectories: a path with a slash cannot be opened.\<close>

definition flat_world :: world where
  "flat_world = \<lparr>files = Map.empty, requests = [], writable = (\<lambda>p. CHR ''/'' \<notin> set p)\<rparr>"

definition net_ok :: net where
  "net_ok n url = Ok ''body''"

definition net_fail_then_ok :: net where
  "net_fail_then_ok n url = (if n = 0 then Failed ''timeout'' else Ok ''body'')"


text \<open>
  The body and the loop of \<open>retry_failed_downloads\<close> on a document of the shape that
  \<open>create_status_file\<close> writes, where no operation on the document can raise and only
  the \<open>OSError\<close> of a write is left: the counterpart on \<open>status\<close> of \<open>retry_one\<close> and
  \<open>retry_loop\<close>, with which they are shown to agree.
\<close>

definition retry_one_status ::
  "net \<Rightarrow> string \<Rightarrow> status \<times> world \<Rightarrow> py_error \<times> world + status \<times> world" where
  "retry_one_status net url sw =
     (let st = fst sw; w = snd sw in
      case construct_file_name url of
        None \<Rightarrow> Inr (st, w)
      | Some file_name \<Rightarrow>
          if files w file_name \<noteq> None then Inr (st, w)
          else (case net (length (requests w)) url of
                  Ok body \<Rightarrow>
                    if \<not> writable w file_name
                    then Inl (OSError, w\<lparr>requests := requests w @ [url]\<rparr>)
                    else Inr (st\<lparr>downloaded := downloaded st @ [file_name],
                                 errors := filter (\<lambda>e. fst e \<noteq> url) (errors st)\<rparr>,
                              w\<lparr>files := (files w)(file_name \<mapsto> Body body),
                                requests := requests w @ [url]\<rparr>)
                | Failed msg \<Rightarrow>
                    Inr (st\<lparr>errors :=
                              map (\<lambda>e. if fst e = url then (fst e, msg) else e) (errors st)\<rparr>,
                         w\<lparr>requests := requests w @ [url]\<rparr>)))"

fun retry_loop_status ::
  "net \<Rightarrow> string list \<Rightarrow> status \<times> world \<Rightarrow> py_error \<times> world + status \<times> world" where
  "retry_loop_status net [] sw = Inr sw"
| "retry_loop_status net (url # urls) sw =
     (case retry_one_status net url sw of
        Inl err \<Rightarrow> Inl err
      | Inr sw' \<Rightarrow> retry_loop_status net urls sw')"

text \<open>
  The shape of the persisted status file as the specification gives it: an object whose
  keys \<open>downloaded\<close> and \<open>skipped\<close> hold arrays of strings and whose key \<open>errors\<close> holds an
  array of objects with a string \<open>url\<close> and a string \<open>error\<close>. The code never checks it;
  the predicate only says which documents the claims call malformed.
\<close>

fun is_str :: "json \<Rightarrow> bool" where
  "is_str (JStr s) = True"
| "is_str j = False"

fun is_error_entry :: "json \<Rightarrow> bool" where
  "is_error_entry (JObj kvs) =
     (case map_of kvs ''url'' of
        Some u \<Rightarrow> (case map_of kvs ''error'' of Some e \<Rightarrow> is_str u \<and> is_str e | None \<Rightarrow> False)
      | None \<Rightarrow> False)"
| "is_error_entry j = False"

fun is_str_array :: "json option \<Rightarrow> bool" where
  "is_str_array (Some (JArr xs)) = list_all is_str xs"
| "is_str_array j = False"

fun is_error_array :: "json option \<Rightarrow> bool" where
  "is_error_array (Some (JArr xs)) = list_all is_error_entry xs"
| "is_error_array j = False"

fun spec_status_shape :: "json \<Rightarrow> bool" where
  "spec_status_shape (JObj doc) =
     (is_str_array (map_of doc ''downloaded'') \<and> is_str_array (map_of doc ''skipped'')
      \<and> is_error_array (map_of doc ''errors''))"
| "spec_status_shape j = False"

definition no_json :: "string \<Rightarrow> json option" where
  "no_json s = None"

definition net_ok_then_fail :: net where
  "net_ok_then_fail n url = (if n = 0 then Ok ''body'' else Failed ''HTTP 503'')"

definition two_errors :: status where
  "two_errors =
     \<lparr>downloaded = [], skipped = [],
      errors = [(''/web/1if_/a'', ''timeout''), (''/web/2if_/b'', ''timeout'')]\<rparr>"

definition one_error :: status where
  "one_error = \<lparr>downloaded = [], skipped = [''0_z''], errors = [(''/web/1if_/a'', ''timeout'')]\<rparr>"

definition two_errors_after :: status where
  "two_errors_after =
     \<lparr>downloaded = [''1_a''], skipped = [], errors = [(''/web/2if_/b'', ''HTTP 503'')]\<rparr>"


text \<open>The world a step or a loop leaves, whether it returned or raised.\<close>

definition world_of :: "py_error \<times> world + status \<times> world \<Rightarrow> world" where
  "world_of r = (case r of Inl ew \<Rightarrow> snd ew | Inr sw \<Rightarrow> snd sw)"

section \<open>Properties of the string functions\<close>

lemma str_index_None_iff: "str_index s sub = None \<longleftrightarrow> \<not> sublist sub s"
  by (induction s) (auto simp: sublist_Cons_right)

lemma str_index_first:
  "\<not> sublist sub (pre @ butlast sub) \<Longrightarrow> sub \<noteq> [] \<Longrightarrow>
   str_index (pre @ sub @ post) sub = Some (length pre)"
proof (induction pre)
  case Nil
  then show ?case by (cases sub) auto
next
  case (Cons c pre)
  have no_prefix: "\<not> prefix sub (c # pre @ sub @ post)"
  proof
    assume p: "prefix sub (c # pre @ sub @ post)"
    have "c # pre @ sub @ post = (c # pre @ butlast sub) @ (last sub # post)"
      using Cons.prems(2) by simp
    then have q: "prefix (c # pre @ butlast sub) (c # pre @ sub @ post)"
      by (simp only: prefixI)
    have "length sub \<le> length (c # pre @ butlast sub)"
      using Cons.prems(2) by (cases sub rule: rev_cases) simp_all
    then have "prefix sub (c # pre @ butlast sub)"
      using p q by (rule prefix_length_prefix [rotated 2])
    then have "sublist sub ((c # pre) @ butlast sub)"
      by (simp only: prefix_imp_sublist append_Cons)
    then show False
      using Cons.prems(1) by simp
  qed
  have "\<not> sublist sub (pre @ butlast sub)"
    using Cons.prems(1) by (simp add: sublist_Cons_right)
  then show ?case
    using Cons.IH Cons.prems(2) no_prefix by simp
qed

lemma basename_append:
  assumes seg: "CHR ''/'' \<notin> set seg" and dir: "dir = [] \<or> last dir = CHR ''/''"
  shows "basename (dir @ seg) = seg"
proof (cases dir rule: rev_cases)
  case Nil
  have "takeWhile (\<lambda>c. c \<noteq> CHR ''/'') (rev seg) = rev seg"
    using seg by (simp add: takeWhile_eq_all_conv) blast
  then show ?thesis
    unfolding basename_def Nil by (simp only: append_Nil rev_rev_ident)
next
  case (snoc d c)
  then have c: "c = CHR ''/''"
    using dir by simp
  have r: "rev ((d @ [CHR ''/'']) @ seg) = rev seg @ CHR ''/'' # rev d"
    by simp
  have "takeWhile (\<lambda>c. c \<noteq> CHR ''/'') (rev seg @ CHR ''/'' # rev d) = rev seg"
    using seg by (subst takeWhile_append2) auto
  then show ?thesis
    unfolding basename_def snoc c by (simp only: r rev_rev_ident)
qed

lemma split_query_append:
  assumes "CHR ''?'' \<notin> set p" and "query = [] \<or> hd query = CHR ''?''"
  shows "split_query (p @ query) = p"
proof (cases query)
  case Nil
  then show ?thesis
    using assms(1) by (simp add: split_query_def takeWhile_eq_all_conv) blast
next
  case (Cons q qs)
  then have "q = CHR ''?''"
    using assms(2) by simp
  then show ?thesis
    using assms(1) Cons by (subst split_query_def, subst takeWhile_append2) auto
qed

lemma sanitize_allowed: "list_all allowed_char (sanitize s)"
  by (induction s) (auto simp: sanitize_def allowed_char_def)

lemma slice_mid: "slice (a @ b @ c) (length a) (length a + length b) = b"
  by (simp add: slice_def)

lemma drop_mid: "drop (length a) (a @ b) = b"
  by simp


section \<open>Claims about the filename deriver\<close>

text \<open>
  C1 (amended). When the first \<open>/web/\<close> of the URL comes before its first \<open>if_/\<close>,
  with the timestamp \<open>ts\<close> between them, and the text after \<open>if_/\<close> is a directory part,
  a last segment \<open>seg\<close> and an optional query, \<open>construct_file_name\<close> returns the
  timestamp, an underscore and the sanitized segment. The sanitized segment has no
  character outside \<open>[a-zA-Z0-9_.-]\<close>; the timestamp is copied as it is, so the whole
  name stays inside the class when the timestamp does. The example URL of the
  specification yields \<open>20200101000000_b.html\<close>.
\<close>

theorem construct_file_name_in_order:
  assumes url: "url = pre @ ''/web/'' @ ts @ ''if_/'' @ dir @ seg @ query"
    and first_web: "\<not> sublist ''/web/'' (pre @ ''/web'')"
    and first_if: "\<not> sublist ''if_/'' (pre @ ''/web/'' @ ts @ ''if_'')"
    and no_q: "CHR ''?'' \<notin> set (dir @ seg)"
    and query: "query = [] \<or> hd query = CHR ''?''"
    and seg: "CHR ''/'' \<notin> set seg"
    and dir: "dir = [] \<or> last dir = CHR ''/''"
  shows "construct_file_name url = Some (ts @ ''_'' @ sanitize seg)
    \<and> list_all allowed_char (sanitize seg)
    \<and> (list_all allowed_char ts \<longrightarrow> list_all allowed_char (ts @ ''_'' @ sanitize seg))
    \<and> construct_file_name
          ''https://web.archive.org/web/20200101000000if_/https://example.com/a/b.html?x=1''
        = Some ''20200101000000_b.html''"
proof -
  have i: "str_index url ''/web/'' = Some (length pre)"
    using str_index_first [of "''/web/''" pre "ts @ ''if_/'' @ dir @ seg @ query"] first_web
    by (simp add: url)
  have j: "str_index url ''if_/'' = Some (length pre + 5 + length ts)"
    using str_index_first [of "''if_/''" "pre @ ''/web/'' @ ts" "dir @ seg @ query"] first_if
    by (simp add: url)
  have ts: "slice url (length pre + 5) (length pre + 5 + length ts) = ts"
    using slice_mid [of "pre @ ''/web/''" ts "''if_/'' @ dir @ seg @ query"]
    by (simp add: url eval_nat_numeral)
  have rest: "drop (length pre + 5 + length ts + 4) url = dir @ seg @ query"
    using drop_mid [of "pre @ ''/web/'' @ ts @ ''if_/''" "dir @ seg @ query"]
    by (simp add: url add.commute add.left_commute)
  have path: "split_query (dir @ seg @ query) = dir @ seg"
    using split_query_append [OF no_q query] by simp
  have base: "basename (dir @ seg) = seg"
    using seg dir by (rule basename_append)
  have "construct_file_name url =
      Some (slice url (length pre + 5) (length pre + 5 + length ts) @ ''_'' @
        sanitize (basename (split_query (drop (length pre + 5 + length ts + 4) url))))"
    unfolding construct_file_name_def i j by (simp only: option.case Let_def)
  then have c1: "construct_file_name url = Some (ts @ ''_'' @ sanitize seg)"
    by (simp only: ts rest path base)
  have c2: "list_all allowed_char (sanitize seg)"
    by (rule sanitize_allowed)
  have "list_all allowed_char ''_''"
    by (simp add: allowed_char_def)
  then have c3: "list_all allowed_char ts \<longrightarrow> list_all allowed_char (ts @ ''_'' @ sanitize seg)"
    using c2 by simp
  have c4: "construct_file_name
      ''https://web.archive.org/web/20200101000000if_/https://example.com/a/b.html?x=1''
    = Some ''20200101000000_b.html''"
    by (simp add: construct_file_name_def slice_def split_query_def basename_def
        sanitize_def allowed_char_def)
  show ?thesis
    by (rule conjI, rule c1, rule conjI, rule c2, rule conjI, rule c3, rule c4)
qed

theorem construct_file_name_in_order_witness:
  "construct_file_name ''https://web.archive.org/web/2020if_/https://example.com/a/c d.txt?x=1''
     = Some ''2020_c_d.txt''
   \<and> list_all allowed_char ''2020_c_d.txt''"
proof -
  have h1: "\<not> sublist ''/web/'' (''https://web.archive.org'' @ ''/web'')"
    by (simp add: sublist_Cons_right)
  have h2: "\<not> sublist ''if_/'' (''https://web.archive.org'' @ ''/web/'' @ ''2020'' @ ''if_'')"
    by (simp add: sublist_Cons_right)
  have h3: "CHR ''?'' \<notin> set (''https://example.com/a/'' @ ''c d.txt'')"
    by simp
  have h4: "''?x=1'' = [] \<or> hd ''?x=1'' = CHR ''?''"
    by simp
  have h5: "CHR ''/'' \<notin> set ''c d.txt''"
    by simp
  have h6: "''https://example.com/a/'' = [] \<or> last ''https://example.com/a/'' = CHR ''/''"
    by simp
  have h7: "list_all allowed_char ''2020''"
    by (simp add: allowed_char_def)
  have s: "sanitize ''c d.txt'' = ''c_d.txt''"
    by (simp add: sanitize_def allowed_char_def)
  note t = construct_file_name_in_order [OF refl h1 h2 h3 h4 h5 h6]
  have a: "construct_file_name
      (''https://web.archive.org'' @ ''/web/'' @ ''2020'' @ ''if_/'' @
       ''https://example.com/a/'' @ ''c d.txt'' @ ''?x=1'') = Some (''2020'' @ ''_'' @ ''c_d.txt'')"
    using t s by simp
  have b: "list_all allowed_char (''2020'' @ ''_'' @ ''c_d.txt'')"
    using t h7 s by simp
  show ?thesis
    using a b by simp
qed

theorem construct_file_name_charset_counterexample:
  "str_index ''https://web.archive.org/web/2020:01if_/https://example.com/a.html'' ''/web/'' = Some 23
   \<and> str_index ''https://web.archive.org/web/2020:01if_/https://example.com/a.html'' ''if_/'' = Some 35
   \<and> construct_file_name ''https://web.archive.org/web/2020:01if_/https://example.com/a.html''
       = Some ''2020:01_a.html''
   \<and> \<not> list_all allowed_char ''2020:01_a.html''"
  by (simp add: construct_file_name_def slice_def split_query_def basename_def
      sanitize_def allowed_char_def)

text \<open>
  C2 (amended). \<open>construct_file_name\<close> returns \<open>None\<close> exactly when \<open>/web/\<close> or \<open>if_/\<close>
  does not occur in the URL. The order of the two markers is not looked at.
\<close>

theorem construct_file_name_None_iff:
  "construct_file_name url = None \<longleftrightarrow> \<not> sublist ''/web/'' url \<or> \<not> sublist ''if_/'' url"
  unfolding str_index_None_iff [symmetric]
  by (auto simp: construct_file_name_def Let_def split: option.splits)

theorem construct_file_name_None_iff_witness:
  "construct_file_name ''https://example.com/web/index.html'' = None
   \<and> construct_file_name ''https://web.archive.org/web/2020if_/a'' \<noteq> None"
proof -
  have a: "\<not> sublist ''if_/'' ''https://example.com/web/index.html''"
    by (simp add: sublist_Cons_right)
  have b: "sublist ''/web/'' ''https://web.archive.org/web/2020if_/a''"
    by (simp add: sublist_Cons_right)
  have c: "sublist ''if_/'' ''https://web.archive.org/web/2020if_/a''"
    by (simp add: sublist_Cons_right)
  have "construct_file_name ''https://example.com/web/index.html'' = None"
    using a by (simp only: construct_file_name_None_iff simp_thms)
  moreover have "construct_file_name ''https://web.archive.org/web/2020if_/a'' \<noteq> None"
    using b c by (simp only: construct_file_name_None_iff simp_thms not_False_eq_True)
  ultimately show ?thesis
    by (rule conjI)
qed

theorem construct_file_name_order_counterexample:
  "str_index ''if_//web/x'' ''if_/'' = Some 0
   \<and> str_index ''if_//web/x'' ''/web/'' = Some 4
   \<and> construct_file_name ''if_//web/x'' = Some ''_x''"
  by (simp add: construct_file_name_def slice_def split_query_def basename_def
      sanitize_def allowed_char_def)

section \<open>Claims about the archive lookup\<close>

lemma length_filter_conj_eq:
  "length (filter (\<lambda>i. P i \<and> Q i) xs) = length (filter P xs) \<longleftrightarrow> (\<forall>i\<in>set xs. P i \<longrightarrow> Q i)"
proof (induction xs)
  case Nil
  then show ?case by simp
next
  case (Cons x xs)
  have le: "length (filter (\<lambda>i. P i \<and> Q i) xs) \<le> length (filter P xs)"
    by (induction xs) auto
  show ?case
    using Cons.IH le by auto
qed

lemma url_lists_eq_iff:
  "map snapshot_url (filter (\<lambda>i. length i > 1 \<and> i \<noteq> header) xs) =
     map snapshot_url (filter (\<lambda>i. length i > 1) xs) \<longleftrightarrow> header \<notin> set xs"
proof
  assume "map snapshot_url (filter (\<lambda>i. length i > 1 \<and> i \<noteq> header) xs) =
     map snapshot_url (filter (\<lambda>i. length i > 1) xs)"
  then have "length (map snapshot_url (filter (\<lambda>i. length i > 1 \<and> i \<noteq> header) xs)) =
     length (map snapshot_url (filter (\<lambda>i. length i > 1) xs))"
    by (rule arg_cong)
  then have "length (filter (\<lambda>i. length i > 1 \<and> i \<noteq> header) xs) =
     length (filter (\<lambda>i. length i > 1) xs)"
    by (simp only: length_map)
  then have all: "\<forall>i\<in>set xs. length i > 1 \<longrightarrow> i \<noteq> header"
    by (simp only: length_filter_conj_eq)
  have "length header > 1"
    by (simp add: header_def)
  then show "header \<notin> set xs"
    using all by blast
next
  assume "header \<notin> set xs"
  then have "filter (\<lambda>i. length i > 1 \<and> i \<noteq> header) xs = filter (\<lambda>i. length i > 1) xs"
    by (induction xs) auto
  then show "map snapshot_url (filter (\<lambda>i. length i > 1 \<and> i \<noteq> header) xs) =
     map snapshot_url (filter (\<lambda>i. length i > 1) xs)"
    by simp
qed

lemma url_list_eq_iff:
  "url_list_downloader obj = url_list_gather obj \<longleftrightarrow> header \<notin> set (tl obj)"
proof (cases obj)
  case Nil
  then show ?thesis
    by (simp add: url_list_downloader_def url_list_gather_def)
next
  case (Cons x xs)
  show ?thesis
  proof (cases "x = header")
    case True
    then show ?thesis
      using url_lists_eq_iff [of xs]
      by (simp add: Cons url_list_downloader_def url_list_gather_def)
  next
    case False
    then show ?thesis
      using url_lists_eq_iff [of xs]
      by (simp add: Cons url_list_downloader_def url_list_gather_def)
  qed
qed


text \<open>
  C7 (amended). The two \<open>get_all_links\<close> compute the same result from a parsed response
  exactly when the header row \<open>["timestamp", "original"]\<close> does not occur after the first
  row: \<open>wayback_downloader.py\<close> leaves out every header row, \<open>wayback_gather.py\<close> only a
  leading one. Both exit when the request fails.
\<close>

theorem get_all_links_agree_iff:
  "(get_all_links_downloader (Some obj) = get_all_links_gather (Some obj)
      \<longleftrightarrow> header \<notin> set (tl obj))
   \<and> get_all_links_downloader None = get_all_links_gather None"
proof -
  have "get_all_links_downloader (Some obj) = get_all_links_gather (Some obj)
      \<longleftrightarrow> url_list_downloader obj = url_list_gather obj"
    by (auto simp: get_all_links_downloader_def get_all_links_gather_def Let_def)
  then show ?thesis
    by (simp add: url_list_eq_iff get_all_links_downloader_def get_all_links_gather_def)
qed

theorem get_all_links_agree_iff_witness:
  "get_all_links_downloader (Some [header, [''20200101000000'', ''http://example.com/'']])
     = get_all_links_gather (Some [header, [''20200101000000'', ''http://example.com/'']])"
proof -
  have "header \<notin> set (tl [header, [''20200101000000'', ''http://example.com/'']])"
    by (simp add: header_def)
  then show ?thesis
    using get_all_links_agree_iff [of "[header, [''20200101000000'', ''http://example.com/'']]"]
    by blast
qed

theorem get_all_links_differ_counterexample:
  "get_all_links_downloader (Some [[''20200101000000'', ''http://example.com/''], header])
     = Inr [''https://web.archive.org/web/20200101000000if_/http://example.com/'']
   \<and> get_all_links_gather (Some [[''20200101000000'', ''http://example.com/''], header])
     = Inr [''https://web.archive.org/web/20200101000000if_/http://example.com/'',
            ''https://web.archive.org/web/timestampif_/original'']"
  by (simp add: get_all_links_downloader_def get_all_links_gather_def url_list_downloader_def
      url_list_gather_def snapshot_url_def header_def)

section \<open>Claims about the download executor\<close>

lemma download_one_entries:
  "download_one net url sw = Inr sw' \<Longrightarrow> entries (fst sw') = Suc (entries (fst sw))"
  by (auto simp: download_one_def entries_def Let_def split: option.splits response.splits if_splits)

lemma download_one_error:
  "download_one net url sw = Inl (e, w') \<Longrightarrow> e = OSError"
  by (auto simp: download_one_def Let_def split: option.splits response.splits if_splits)

lemma download_one_writable:
  "download_one net url sw = Inr sw' \<Longrightarrow> writable (snd sw') = writable (snd sw)"
  by (auto simp: download_one_def Let_def split: option.splits response.splits if_splits)

lemma download_one_total:
  "\<forall>p. writable (snd sw) p \<Longrightarrow> \<exists>sw'. download_one net url sw = Inr sw'"
  by (simp add: download_one_def Let_def split: option.split response.split)

lemma downloader_loop_entries:
  "downloader_loop net urls sw = Inr sw' \<Longrightarrow> entries (fst sw') = entries (fst sw) + length urls"
proof (induction urls arbitrary: sw)
  case Nil
  then show ?case by simp
next
  case (Cons url urls)
  then obtain sw1 where one: "download_one net url sw = Inr sw1"
    and rest: "downloader_loop net urls sw1 = Inr sw'"
    by (auto split: sum.splits)
  show ?case
    using Cons.IH [OF rest] download_one_entries [OF one] by simp
qed

lemma downloader_loop_error:
  "downloader_loop net urls sw = Inl (e, w') \<Longrightarrow> e = OSError"
proof (induction urls arbitrary: sw)
  case Nil
  then show ?case by simp
next
  case (Cons url urls)
  show ?case
  proof (cases "download_one net url sw")
    case (Inl err)
    then show ?thesis
      using Cons.prems download_one_error [of net url sw e w'] by simp
  next
    case (Inr sw1)
    then show ?thesis
      using Cons.prems Cons.IH [of sw1] by simp
  qed
qed

lemma downloader_loop_writable:
  "downloader_loop net urls sw = Inr sw' \<Longrightarrow> writable (snd sw') = writable (snd sw)"
proof (induction urls arbitrary: sw)
  case Nil
  then show ?case by simp
next
  case (Cons url urls)
  then obtain sw1 where one: "download_one net url sw = Inr sw1"
    and rest: "downloader_loop net urls sw1 = Inr sw'"
    by (auto split: sum.splits)
  show ?case
    using Cons.IH [OF rest] download_one_writable [OF one] by simp
qed

lemma downloader_loop_total:
  "\<forall>p. writable (snd sw) p \<Longrightarrow> \<exists>sw'. downloader_loop net urls sw = Inr sw'"
proof (induction urls arbitrary: sw)
  case Nil
  then show ?case by simp
next
  case (Cons url urls)
  obtain sw1 where one: "download_one net url sw = Inr sw1"
    using download_one_total [OF Cons.prems] by blast
  have "\<forall>p. writable (snd sw1) p"
    using Cons.prems download_one_writable [OF one] by simp
  then show ?case
    using Cons.IH [of sw1] one by simp
qed

text \<open>
  C6. A run of \<open>downloader\<close> over any list of URLs, whatever the network answers and
  whatever files exist, either leaves a status document or is ended by the \<open>OSError\<close> of
  a write. In the status document it leaves, which is the one in the status file, the
  three lists together have as many entries as there are input URLs. The run leaves a
  status document whenever every path can be opened for writing.
\<close>

theorem downloader_status_counts:
  "(\<forall>st w'. downloader net urls base_url w = Inr (st, w') \<longrightarrow>
      length (downloaded st) + length (skipped st) + length (errors st) = length urls
      \<and> files w' (status_file_name base_url) = Some (Document (status_json st)))
   \<and> (\<forall>e w'. downloader net urls base_url w = Inl (e, w') \<longrightarrow> e = OSError)
   \<and> ((\<forall>p. writable w p) \<longrightarrow> (\<exists>st w'. downloader net urls base_url w = Inr (st, w')))"
proof (intro conjI allI impI)
  fix st w'
  assume run: "downloader net urls base_url w = Inr (st, w')"
  then obtain w1 where loop: "downloader_loop net urls (init_status, w) = Inr (st, w1)"
    and written: "create_status_file st base_url w1 = Inr w'"
    by (auto simp: downloader_def split: sum.splits)
  have "entries st = length urls"
    using downloader_loop_entries [OF loop] by (simp add: entries_def init_status_def)
  then show "length (downloaded st) + length (skipped st) + length (errors st) = length urls"
    by (simp add: entries_def)
  show "files w' (status_file_name base_url) = Some (Document (status_json st))"
    using written by (auto simp: create_status_file_def split: if_splits)
next
  fix e w'
  assume run: "downloader net urls base_url w = Inl (e, w')"
  show "e = OSError"
  proof (cases "downloader_loop net urls (init_status, w)")
    case (Inl err)
    then show ?thesis
      using run downloader_loop_error [of net urls "(init_status, w)" e w']
      by (simp add: downloader_def)
  next
    case (Inr sw)
    then show ?thesis
      using run by (auto simp: downloader_def create_status_file_def split: if_splits)
  qed
next
  assume all: "\<forall>p. writable w p"
  then obtain sw where loop: "downloader_loop net urls (init_status, w) = Inr sw"
    using downloader_loop_total [of "(init_status, w)" net urls] by auto
  have "\<forall>p. writable (snd sw) p"
    using all downloader_loop_writable [OF loop] by simp
  then show "\<exists>st w'. downloader net urls base_url w = Inr (st, w')"
    using loop by (simp add: downloader_def create_status_file_def)
qed

theorem downloader_status_counts_witness:
  "\<exists>st w'. downloader net_fail_then_ok
       [''/web/1if_/a'', ''no marker'', ''/web/2if_/b''] ''b'' empty_world = Inr (st, w')
     \<and> length (downloaded st) + length (skipped st) + length (errors st) = 3
     \<and> files w' ''status_b.json'' = Some (Document (status_json st))"
proof -
  note t = downloader_status_counts
    [of net_fail_then_ok "[''/web/1if_/a'', ''no marker'', ''/web/2if_/b'']" "''b''" empty_world]
  have "\<forall>p. writable empty_world p"
    by (simp add: empty_world_def)
  then obtain st w' where run: "downloader net_fail_then_ok
       [''/web/1if_/a'', ''no marker'', ''/web/2if_/b''] ''b'' empty_world = Inr (st, w')"
    using t by blast
  have name: "status_file_name ''b'' = ''status_b.json''"
    by (simp add: status_file_name_def sanitize_def allowed_char_def)
  have "length (downloaded st) + length (skipped st) + length (errors st)
      = length [''/web/1if_/a'', ''no marker'', ''/web/2if_/b'']
    \<and> files w' (status_file_name ''b'') = Some (Document (status_json st))"
    using t run by blast
  then show ?thesis
    using run name by (intro exI [of _ st] exI [of _ w']) simp
qed

lemma download_one_files_mono:
  "download_one net url sw = Inr sw' \<Longrightarrow> files (snd sw) f \<noteq> None \<Longrightarrow> files (snd sw') f \<noteq> None"
  by (auto simp: download_one_def Let_def split: option.splits response.splits if_splits)

lemma download_one_errors_length:
  "download_one net url sw = Inr sw' \<Longrightarrow> length (errors (fst sw)) \<le> length (errors (fst sw'))"
  by (auto simp: download_one_def Let_def split: option.splits response.splits if_splits)

lemma download_one_no_error:
  "download_one net url sw = Inr sw' \<Longrightarrow> length (errors (fst sw')) = length (errors (fst sw)) \<Longrightarrow>
   \<exists>f. construct_file_name url = Some f \<and> files (snd sw') f \<noteq> None"
  by (auto simp: download_one_def Let_def split: option.splits response.splits if_splits)

lemma downloader_loop_files_mono:
  "downloader_loop net urls sw = Inr sw' \<Longrightarrow> files (snd sw) f \<noteq> None \<Longrightarrow>
   files (snd sw') f \<noteq> None"
proof (induction urls arbitrary: sw)
  case Nil
  then show ?case by simp
next
  case (Cons url urls)
  then obtain sw1 where one: "download_one net url sw = Inr sw1"
    and rest: "downloader_loop net urls sw1 = Inr sw'"
    by (auto split: sum.splits)
  have "files (snd sw1) f \<noteq> None"
    using one Cons.prems(2) by (rule download_one_files_mono)
  then show ?case
    using rest by (rule Cons.IH [rotated])
qed

lemma downloader_loop_errors_length:
  "downloader_loop net urls sw = Inr sw' \<Longrightarrow> length (errors (fst sw)) \<le> length (errors (fst sw'))"
proof (induction urls arbitrary: sw)
  case Nil
  then show ?case by simp
next
  case (Cons url urls)
  then obtain sw1 where one: "download_one net url sw = Inr sw1"
    and rest: "downloader_loop net urls sw1 = Inr sw'"
    by (auto split: sum.splits)
  show ?case
    using Cons.IH [OF rest] download_one_errors_length [OF one] by simp
qed

lemma downloader_loop_no_errors:
  "downloader_loop net urls sw = Inr sw' \<Longrightarrow>
   length (errors (fst sw')) = length (errors (fst sw)) \<Longrightarrow> u \<in> set urls \<Longrightarrow>
   \<exists>f. construct_file_name u = Some f \<and> files (snd sw') f \<noteq> None"
proof (induction urls arbitrary: sw)
  case Nil
  then show ?case by simp
next
  case (Cons url urls)
  then obtain sw1 where one: "download_one net url sw = Inr sw1"
    and rest: "downloader_loop net urls sw1 = Inr sw'"
    by (auto split: sum.splits)
  have le1: "length (errors (fst sw)) \<le> length (errors (fst sw1))"
    using one by (rule download_one_errors_length)
  have le2: "length (errors (fst sw1)) \<le> length (errors (fst sw'))"
    using rest by (rule downloader_loop_errors_length)
  have eq1: "length (errors (fst sw1)) = length (errors (fst sw))"
    using le1 le2 Cons.prems(2) by linarith
  have eq2: "length (errors (fst sw')) = length (errors (fst sw1))"
    using le1 le2 Cons.prems(2) by linarith
  show ?case
  proof (cases "u = url")
    case True
    obtain f where f: "construct_file_name url = Some f" "files (snd sw1) f \<noteq> None"
      using download_one_no_error [OF one eq1] by blast
    have "files (snd sw') f \<noteq> None"
      using rest f(2) by (rule downloader_loop_files_mono)
    then show ?thesis
      using True f(1) by simp
  next
    case False
    then have "u \<in> set urls"
      using Cons.prems(3) by simp
    then show ?thesis
      using Cons.IH [OF rest eq2] by simp
  qed
qed

lemma downloader_loop_all_exist:
  "\<forall>u\<in>set urls. \<exists>f. construct_file_name u = Some f \<and> files w f \<noteq> None \<Longrightarrow>
   downloader_loop net urls (st, w) = Inr (st\<lparr>skipped := skipped st @ file_names urls\<rparr>, w)"
proof (induction urls arbitrary: st)
  case Nil
  then show ?case by (simp add: file_names_def List.map_filter_simps)
next
  case (Cons url urls)
  obtain f where f: "construct_file_name url = Some f" "files w f \<noteq> None"
    using Cons.prems by auto
  have one: "download_one net url (st, w) = Inr (st\<lparr>skipped := skipped st @ [f]\<rparr>, w)"
    using f by (simp add: download_one_def Let_def)
  have "\<forall>u\<in>set urls. \<exists>f. construct_file_name u = Some f \<and> files w f \<noteq> None"
    using Cons.prems by simp
  then show ?case
    using Cons.IH [of "st\<lparr>skipped := skipped st @ [f]\<rparr>"] one f(1)
    by (simp add: file_names_def List.map_filter_simps)
qed

lemma file_names_all_valid:
  "\<forall>u\<in>set urls. \<exists>f. construct_file_name u = Some f \<Longrightarrow>
   map Some (file_names urls) = map construct_file_name urls"
  by (induction urls) (auto simp: file_names_def List.map_filter_simps)

text \<open>
  C3 (amended). When a first run of \<open>downloader\<close> completes and records no error, a
  second run over the same URL list in the world the first run left completes and
  skips every URL: it issues no request, adds and removes no file (only the status
  file is written again), and its \<open>skipped\<close> list holds the derived file name of every
  input URL, in order.
\<close>

theorem downloader_twice:
  assumes run1: "downloader net urls base_url w = Inr (st1, w1)"
    and no_errors: "errors st1 = []"
  shows "\<exists>st2 w2. downloader net' urls base_url w1 = Inr (st2, w2)
    \<and> dom (files w2) = dom (files w1)
    \<and> requests w2 = requests w1
    \<and> map Some (skipped st2) = map construct_file_name urls
    \<and> downloaded st2 = [] \<and> errors st2 = []
    \<and> files w2 = (files w1)(status_file_name base_url \<mapsto> Document (status_json st2))"
proof -
  obtain w0 where loop: "downloader_loop net urls (init_status, w) = Inr (st1, w0)"
    and written: "create_status_file st1 base_url w0 = Inr w1"
    using run1 by (auto simp: downloader_def split: sum.splits)
  have w1: "w1 = w0\<lparr>files := (files w0)(status_file_name base_url \<mapsto> Document (status_json st1))\<rparr>"
    and wr: "writable w0 (status_file_name base_url)"
    using written by (auto simp: create_status_file_def split: if_splits)
  have "length (errors (fst (st1, w0))) = length (errors (fst (init_status, w)))"
    using no_errors by (simp add: init_status_def)
  then have ex: "\<forall>u\<in>set urls. \<exists>f. construct_file_name u = Some f \<and> files (snd (st1, w0)) f \<noteq> None"
    using downloader_loop_no_errors [OF loop] by blast
  have "\<forall>u\<in>set urls. \<exists>f. construct_file_name u = Some f \<and> files w1 f \<noteq> None"
  proof
    fix u assume "u \<in> set urls"
    then obtain f where "construct_file_name u = Some f" "files w0 f \<noteq> None"
      using ex by auto
    then show "\<exists>f. construct_file_name u = Some f \<and> files w1 f \<noteq> None"
      by (auto simp: w1)
  qed
  then have loop2: "downloader_loop net' urls (init_status, w1) =
      Inr (init_status\<lparr>skipped := skipped init_status @ file_names urls\<rparr>, w1)"
    by (rule downloader_loop_all_exist)
  let ?st2 = "init_status\<lparr>skipped := file_names urls\<rparr>"
  let ?w2 = "w1\<lparr>files := (files w1)(status_file_name base_url \<mapsto> Document (status_json ?st2))\<rparr>"
  have "writable w1 (status_file_name base_url)"
    using wr by (simp add: w1)
  then have run2: "downloader net' urls base_url w1 = Inr (?st2, ?w2)"
    using loop2 by (simp add: downloader_def create_status_file_def init_status_def)
  have names: "map Some (file_names urls) = map construct_file_name urls"
    using ex by (intro file_names_all_valid) blast
  have "files w1 (status_file_name base_url) \<noteq> None"
    by (simp add: w1)
  then have "dom (files ?w2) = dom (files w1)"
    by auto
  then show ?thesis
    using run2 names by (intro exI [of _ ?st2] exI [of _ ?w2]) (simp add: init_status_def)
qed

lemma file_name_1_a: "construct_file_name ''/web/1if_/a'' = Some ''1_a''"
  by (simp add: construct_file_name_def slice_def split_query_def basename_def
      sanitize_def allowed_char_def)

lemma file_name_2_b: "construct_file_name ''/web/2if_/b'' = Some ''2_b''"
  by (simp add: construct_file_name_def slice_def split_query_def basename_def
      sanitize_def allowed_char_def)

lemma status_file_name_b: "status_file_name ''b'' = ''status_b.json''"
  by (simp add: status_file_name_def sanitize_def allowed_char_def)

theorem downloader_twice_witness:
  "\<exists>st1 w1 st2 w2.
     downloader net_ok [''/web/1if_/a''] ''b'' empty_world = Inr (st1, w1)
   \<and> downloaded st1 = [''1_a'']
   \<and> downloader net_ok [''/web/1if_/a''] ''b'' w1 = Inr (st2, w2)
   \<and> skipped st2 = [''1_a'']
   \<and> requests w2 = requests w1
   \<and> dom (files w2) = dom (files w1)"
proof -
  let ?st1 = "\<lparr>downloaded = [''1_a''], skipped = [], errors = []\<rparr>"
  let ?w1 = "empty_world\<lparr>files := [''1_a'' \<mapsto> Body ''body'',
      ''status_b.json'' \<mapsto> Document (status_json ?st1)], requests := [''/web/1if_/a'']\<rparr>"
  have r1: "downloader net_ok [''/web/1if_/a''] ''b'' empty_world = Inr (?st1, ?w1)"
    by (simp add: downloader_def download_one_def file_name_1_a empty_world_def net_ok_def
        init_status_def create_status_file_def status_file_name_b Let_def)
  have e: "errors ?st1 = []"
    by simp
  obtain st2 w2 where r2: "downloader net_ok [''/web/1if_/a''] ''b'' ?w1 = Inr (st2, w2)"
    and d: "dom (files w2) = dom (files ?w1)"
    and q: "requests w2 = requests ?w1"
    and s: "map Some (skipped st2) = map construct_file_name [''/web/1if_/a'']"
    using downloader_twice [OF r1 e, of net_ok] by blast
  have "map Some (skipped st2) = [Some ''1_a'']"
    using s by (simp add: file_name_1_a)
  then have "skipped st2 = [''1_a'']"
    by (cases "skipped st2") auto
  then show ?thesis
    using r1 r2 d q by (intro exI [of _ ?st1] exI [of _ ?w1] exI [of _ st2] exI [of _ w2]) simp
qed

theorem downloader_twice_counterexample:
  "errors (fst (projr (downloader net_fail_then_ok [''/web/1if_/a''] ''b'' empty_world)))
     = [(''/web/1if_/a'', ''timeout'')]
   \<and> files (snd (projr (downloader net_fail_then_ok [''/web/1if_/a''] ''b'' empty_world)))
        ''1_a'' = None
   \<and> \<not> isl (downloader net_fail_then_ok [''/web/1if_/a''] ''b''
        (snd (projr (downloader net_fail_then_ok [''/web/1if_/a''] ''b'' empty_world))))
   \<and> files (snd (projr (downloader net_fail_then_ok [''/web/1if_/a''] ''b''
        (snd (projr (downloader net_fail_then_ok [''/web/1if_/a''] ''b'' empty_world))))))
        ''1_a'' = Some (Body ''body'')
   \<and> skipped (fst (projr (downloader net_fail_then_ok [''/web/1if_/a''] ''b''
        (snd (projr (downloader net_fail_then_ok [''/web/1if_/a''] ''b'' empty_world))))))
     = []"
proof -
  let ?st1 = "\<lparr>downloaded = [], skipped = [], errors = [(''/web/1if_/a'', ''timeout'')]\<rparr>"
  let ?w1 = "empty_world\<lparr>files := [''status_b.json'' \<mapsto> Document (status_json ?st1)],
      requests := [''/web/1if_/a'']\<rparr>"
  have r1: "downloader net_fail_then_ok [''/web/1if_/a''] ''b'' empty_world = Inr (?st1, ?w1)"
    by (simp add: downloader_def download_one_def file_name_1_a empty_world_def
        net_fail_then_ok_def init_status_def create_status_file_def status_file_name_b Let_def)
  have r2: "downloader net_fail_then_ok [''/web/1if_/a''] ''b'' ?w1 =
      Inr (\<lparr>downloaded = [''1_a''], skipped = [], errors = []\<rparr>,
           ?w1\<lparr>files := (files ?w1)(''1_a'' \<mapsto> Body ''body'',
                   ''status_b.json'' \<mapsto>
                     Document (status_json \<lparr>downloaded = [''1_a''], skipped = [], errors = []\<rparr>)),
               requests := [''/web/1if_/a'', ''/web/1if_/a'']\<rparr>)"
    by (simp add: downloader_def download_one_def file_name_1_a empty_world_def
        net_fail_then_ok_def init_status_def create_status_file_def status_file_name_b Let_def)
  show ?thesis
    unfolding r1 sum.sel fst_conv snd_conv r2 by (simp add: empty_world_def)
qed









section \<open>The retry runner on a well-shaped document\<close>

lemma item_url_error_json: "item_url (error_json e) = Inr (JStr (fst e))"
  by (simp add: error_json_def)

lemma urls_of_error_json: "urls_of (map error_json es) = Inr (map (\<lambda>e. JStr (fst e)) es)"
  by (induction es) (simp_all add: item_url_error_json)

lemma failed_urls_status_dict:
  "failed_urls (status_dict st) = Inr (map (\<lambda>e. JStr (fst e)) (errors st))"
  by (simp add: failed_urls_def status_dict_def urls_of_error_json)

lemma keep_entries_error_json:
  "keep_entries (map error_json es) url = Inr (map error_json (filter (\<lambda>e. fst e \<noteq> url) es))"
  by (induction es) (simp_all add: item_url_error_json)

lemma set_error_error_json: "set_error (error_json e) msg = error_json (fst e, msg)"
  by (simp add: error_json_def)

lemma update_entries_error_json:
  "update_entries (map error_json es) url msg =
     Inr (map error_json (map (\<lambda>e. if fst e = url then (fst e, msg) else e) es))"
  by (induction es) (simp_all add: item_url_error_json set_error_error_json)

lemma append_downloaded_status_dict:
  "append_downloaded (status_dict st) f =
     Inr (status_dict (st\<lparr>downloaded := downloaded st @ [f]\<rparr>))"
  by (simp add: append_downloaded_def status_dict_def)

lemma remove_errors_status_dict:
  "remove_errors (status_dict st) url =
     Inr (status_dict (st\<lparr>errors := filter (\<lambda>e. fst e \<noteq> url) (errors st)\<rparr>))"
  by (simp add: remove_errors_def status_dict_def keep_entries_error_json)

lemma update_errors_status_dict:
  "update_errors (status_dict st) url msg =
     Inr (status_dict
       (st\<lparr>errors := map (\<lambda>e. if fst e = url then (fst e, msg) else e) (errors st)\<rparr>))"
  by (simp add: update_errors_def status_dict_def update_entries_error_json)

lemma retry_one_status_dict:
  "retry_one net (JStr url) (status_dict st, w) =
     map_sum id (map_prod status_dict id) (retry_one_status net url (st, w))"
  by (simp add: retry_one_status_def append_downloaded_status_dict remove_errors_status_dict
      update_errors_status_dict Let_def split: option.split response.split)

lemma retry_loop_status_dict:
  "retry_loop net (map JStr urls) (status_dict st, w) =
     map_sum id (map_prod status_dict id) (retry_loop_status net urls (st, w))"
proof (induction urls arbitrary: st w)
  case Nil
  then show ?case by simp
next
  case (Cons url urls)
  show ?case
  proof (cases "retry_one_status net url (st, w)")
    case (Inl err)
    then show ?thesis
      using retry_one_status_dict [of net url st w] by simp
  next
    case (Inr sw)
    obtain st1 w1 where sw: "sw = (st1, w1)"
      by (cases sw)
    have "retry_one net (JStr url) (status_dict st, w) = Inr (status_dict st1, w1)"
      using retry_one_status_dict [of net url st w] Inr sw by simp
    then show ?thesis
      using Cons.IH [of st1 w1] Inr sw by simp
  qed
qed

lemma retry_failed_downloads_status:
  assumes "files w status_file = Some c" and "json_load load c = Some (status_json st)"
  shows "retry_failed_downloads load net status_file w =
     (if errors st = [] then (Returned, w)
      else (case retry_loop_status net (map fst (errors st)) (st, w) of
              Inl (err, w') \<Rightarrow> (Uncaught err, w')
            | Inr (st', w') \<Rightarrow>
                if writable w' status_file
                then (Returned,
                      w'\<lparr>files := (files w')(status_file \<mapsto> Document (status_json st'))\<rparr>)
                else (Uncaught OSError, w')))"
proof -
  have m: "map (\<lambda>e. JStr (fst e)) (errors st) = map JStr (map fst (errors st))"
    by simp
  show ?thesis
    using assms
    by (simp add: retry_failed_downloads_def status_json_def failed_urls_status_dict
        retry_loop_status_dict m del: map_map split: sum.split)
qed

section \<open>Claims about the retry runner\<close>

text \<open>
  C9. On a status document whose \<open>errors\<close> list is empty, \<open>retry_failed_downloads\<close>
  returns normally and leaves the world as it was: no request is added to the log and
  no file, the status file included, is written.
\<close>

theorem retry_nothing_to_do:
  assumes "files w status_file = Some c"
    and "json_load load c = Some (JObj doc)"
    and "map_of doc ''errors'' = Some (JArr [])"
  shows "retry_failed_downloads load net status_file w = (Returned, w)"
  using assms by (simp add: retry_failed_downloads_def failed_urls_def)

theorem retry_nothing_to_do_witness:
  "retry_failed_downloads no_json net_ok ''status_b.json''
     (empty_world\<lparr>files := [''status_b.json'' \<mapsto>
        Document (status_json \<lparr>downloaded = [''1_a''], skipped = [], errors = []\<rparr>)]\<rparr>)
   = (Returned, empty_world\<lparr>files := [''status_b.json'' \<mapsto>
        Document (status_json \<lparr>downloaded = [''1_a''], skipped = [], errors = []\<rparr>)]\<rparr>)"
proof -
  let ?st = "\<lparr>downloaded = [''1_a''], skipped = [], errors = []\<rparr>"
  let ?w = "empty_world\<lparr>files := [''status_b.json'' \<mapsto> Document (status_json ?st)]\<rparr>"
  have a: "files ?w ''status_b.json'' = Some (Document (status_json ?st))"
    by simp
  have b: "json_load no_json (Document (status_json ?st)) = Some (JObj (status_dict ?st))"
    by (simp add: status_json_def)
  have c: "map_of (status_dict ?st) ''errors'' = Some (JArr [])"
    by (simp add: status_dict_def)
  show ?thesis
    using a b c by (rule retry_nothing_to_do)
qed

text \<open>
  C8 (amended). \<open>retry_failed_downloads\<close> leaves with \<open>exit(1)\<close>, the world untouched,
  whenever the status file does not exist or its text is not JSON. A document that
  parses is not checked against the shape of a status document.
\<close>

theorem retry_fatal:
  assumes "files w status_file = None
      \<or> (\<exists>c. files w status_file = Some c \<and> json_load load c = None)"
  shows "retry_failed_downloads load net status_file w = (Exit 1, w)"
  using assms by (auto simp: retry_failed_downloads_def)

theorem retry_fatal_witness:
  "retry_failed_downloads no_json net_ok ''status_b.json'' empty_world = (Exit 1, empty_world)
   \<and> retry_failed_downloads no_json net_ok ''status_b.json''
        (empty_world\<lparr>files := [''status_b.json'' \<mapsto> Body ''<html>'']\<rparr>)
      = (Exit 1, empty_world\<lparr>files := [''status_b.json'' \<mapsto> Body ''<html>'']\<rparr>)"
proof -
  have a: "files empty_world ''status_b.json'' = None
      \<or> (\<exists>c. files empty_world ''status_b.json'' = Some c \<and> json_load no_json c = None)"
    by (simp add: empty_world_def)
  let ?w = "empty_world\<lparr>files := [''status_b.json'' \<mapsto> Body ''<html>'']\<rparr>"
  have b: "files ?w ''status_b.json'' = None
      \<or> (\<exists>c. files ?w ''status_b.json'' = Some c \<and> json_load no_json c = None)"
    by (simp add: no_json_def)
  show ?thesis
    using retry_fatal [OF a] retry_fatal [OF b] by (rule conjI)
qed

theorem retry_malformed_counterexample:
  "\<not> spec_status_shape (JObj [])
   \<and> retry_failed_downloads no_json net_ok ''status_b.json''
        (empty_world\<lparr>files := [''status_b.json'' \<mapsto> Document (JObj [])]\<rparr>)
      = (Returned, empty_world\<lparr>files := [''status_b.json'' \<mapsto> Document (JObj [])]\<rparr>)"
  by (simp add: retry_failed_downloads_def failed_urls_def)

lemma retry_one_status_cases:
  obtains (unchanged) "retry_one_status net url (st, w) = Inr (st, w)"
  | (success) f body where "construct_file_name url = Some f" "files w f = None" "writable w f"
      "retry_one_status net url (st, w) =
         Inr (st\<lparr>downloaded := downloaded st @ [f],
                 errors := filter (\<lambda>e. fst e \<noteq> url) (errors st)\<rparr>,
              w\<lparr>files := (files w)(f \<mapsto> Body body), requests := requests w @ [url]\<rparr>)"
  | (failure) f msg where "construct_file_name url = Some f" "files w f = None"
      "retry_one_status net url (st, w) =
         Inr (st\<lparr>errors := map (\<lambda>e. if fst e = url then (fst e, msg) else e) (errors st)\<rparr>,
              w\<lparr>requests := requests w @ [url]\<rparr>)"
  | (abort) f where "construct_file_name url = Some f" "files w f = None" "\<not> writable w f"
      "retry_one_status net url (st, w) = Inl (OSError, w\<lparr>requests := requests w @ [url]\<rparr>)"
proof (cases "construct_file_name url")
  case None
  then show ?thesis
    using unchanged by (simp add: retry_one_status_def)
next
  case (Some f)
  show ?thesis
  proof (cases "files w f = None")
    case False
    then show ?thesis
      using unchanged Some by (simp add: retry_one_status_def Let_def)
  next
    case True
    show ?thesis
    proof (cases "net (length (requests w)) url")
      case (Ok body)
      show ?thesis
      proof (cases "writable w f")
        case True
        then show ?thesis
          using success [of f body] Some \<open>files w f = None\<close> Ok
          by (simp add: retry_one_status_def Let_def)
      next
        case False
        then show ?thesis
          using abort [of f] Some \<open>files w f = None\<close> Ok
          by (simp add: retry_one_status_def Let_def)
      qed
    next
      case (Failed msg)
      then show ?thesis
        using failure [of f msg] Some True by (simp add: retry_one_status_def Let_def)
    qed
  qed
qed

lemma retry_one_status_skipped:
  "retry_one_status net url sw = Inr sw' \<Longrightarrow> skipped (fst sw') = skipped (fst sw)"
  by (cases rule: retry_one_status_cases [of net url "fst sw" "snd sw"]) auto

lemma retry_one_status_files_mono:
  "retry_one_status net url sw = Inr sw' \<Longrightarrow> files (snd sw) f \<noteq> None \<Longrightarrow>
   files (snd sw') f \<noteq> None"
  by (cases rule: retry_one_status_cases [of net url "fst sw" "snd sw"]) auto

lemma retry_one_status_writable:
  "retry_one_status net url sw = Inr sw' \<Longrightarrow> writable (snd sw') = writable (snd sw)"
  by (cases rule: retry_one_status_cases [of net url "fst sw" "snd sw"]) auto

lemma retry_one_status_error:
  "retry_one_status net url sw = Inl (e, w') \<Longrightarrow> e = OSError"
  by (cases rule: retry_one_status_cases [of net url "fst sw" "snd sw"]) auto

lemma retry_one_status_total:
  "\<forall>p. writable (snd sw) p \<Longrightarrow> \<exists>sw'. retry_one_status net url sw = Inr sw'"
  by (cases rule: retry_one_status_cases [of net url "fst sw" "snd sw"]) auto

lemma retry_one_status_existing:
  "files (snd sw) p = Some c \<Longrightarrow> files (world_of (retry_one_status net url sw)) p = Some c"
  by (cases rule: retry_one_status_cases [of net url "fst sw" "snd sw"])
    (auto simp: world_of_def)

lemma retry_one_status_keeps:
  assumes "retry_one_status net url sw = Inr sw'"
    and "e \<in> set (errors (fst sw))"
    and "construct_file_name (fst e) = Some f"
    and "files (snd sw) f \<noteq> None"
  shows "e \<in> set (errors (fst sw'))"
proof (cases rule: retry_one_status_cases [of net url "fst sw" "snd sw"])
  case unchanged
  then show ?thesis
    using assms by auto
next
  case (success g body)
  then have "fst e \<noteq> url"
    using assms(3,4) by auto
  then show ?thesis
    using success assms(1,2) by auto
next
  case (failure g msg)
  then have "fst e \<noteq> url"
    using assms(3,4) by auto
  then have "e \<in> set (map (\<lambda>e. if fst e = url then (fst e, msg) else e) (errors (fst sw)))"
    using assms(2) by (auto simp: image_iff intro: bexI [of _ e])
  then show ?thesis
    using failure assms(1) by auto
next
  case (abort g)
  then show ?thesis
    using assms(1) by simp
qed

lemma retry_loop_status_skipped:
  "retry_loop_status net urls sw = Inr sw' \<Longrightarrow> skipped (fst sw') = skipped (fst sw)"
proof (induction urls arbitrary: sw)
  case Nil
  then show ?case by simp
next
  case (Cons url urls)
  then obtain sw1 where one: "retry_one_status net url sw = Inr sw1"
    and rest: "retry_loop_status net urls sw1 = Inr sw'"
    by (auto split: sum.splits)
  show ?case
    using Cons.IH [OF rest] retry_one_status_skipped [OF one] by simp
qed

lemma retry_loop_status_writable:
  "retry_loop_status net urls sw = Inr sw' \<Longrightarrow> writable (snd sw') = writable (snd sw)"
proof (induction urls arbitrary: sw)
  case Nil
  then show ?case by simp
next
  case (Cons url urls)
  then obtain sw1 where one: "retry_one_status net url sw = Inr sw1"
    and rest: "retry_loop_status net urls sw1 = Inr sw'"
    by (auto split: sum.splits)
  show ?case
    using Cons.IH [OF rest] retry_one_status_writable [OF one] by simp
qed

lemma retry_loop_status_error:
  "retry_loop_status net urls sw = Inl (e, w') \<Longrightarrow> e = OSError"
proof (induction urls arbitrary: sw)
  case Nil
  then show ?case by simp
next
  case (Cons url urls)
  show ?case
  proof (cases "retry_one_status net url sw")
    case (Inl err)
    then show ?thesis
      using Cons.prems retry_one_status_error [of net url sw e w'] by simp
  next
    case (Inr sw1)
    then show ?thesis
      using Cons.prems Cons.IH [of sw1] by simp
  qed
qed

lemma retry_loop_status_total:
  "\<forall>p. writable (snd sw) p \<Longrightarrow> \<exists>sw'. retry_loop_status net urls sw = Inr sw'"
proof (induction urls arbitrary: sw)
  case Nil
  then show ?case by simp
next
  case (Cons url urls)
  obtain sw1 where one: "retry_one_status net url sw = Inr sw1"
    using retry_one_status_total [OF Cons.prems] by blast
  have "\<forall>p. writable (snd sw1) p"
    using Cons.prems retry_one_status_writable [OF one] by simp
  then show ?case
    using Cons.IH [of sw1] one by simp
qed

lemma retry_loop_status_existing:
  "files (snd sw) p = Some c \<Longrightarrow> files (world_of (retry_loop_status net urls sw)) p = Some c"
proof (induction urls arbitrary: sw)
  case Nil
  then show ?case by (simp add: world_of_def)
next
  case (Cons url urls)
  show ?case
  proof (cases "retry_one_status net url sw")
    case (Inl err)
    then show ?thesis
      using retry_one_status_existing [OF Cons.prems, of net url] by simp
  next
    case (Inr sw1)
    then have "files (snd sw1) p = Some c"
      using retry_one_status_existing [OF Cons.prems, of net url] by (simp add: world_of_def)
    then show ?thesis
      using Cons.IH [of sw1] Inr by simp
  qed
qed

lemma retry_loop_status_keeps:
  "retry_loop_status net urls sw = Inr sw' \<Longrightarrow> e \<in> set (errors (fst sw)) \<Longrightarrow>
   construct_file_name (fst e) = Some f \<Longrightarrow> files (snd sw) f \<noteq> None \<Longrightarrow>
   e \<in> set (errors (fst sw'))"
proof (induction urls arbitrary: sw)
  case Nil
  then show ?case by simp
next
  case (Cons url urls)
  then obtain sw1 where one: "retry_one_status net url sw = Inr sw1"
    and rest: "retry_loop_status net urls sw1 = Inr sw'"
    by (auto split: sum.splits)
  have "e \<in> set (errors (fst sw1))"
    using one Cons.prems(2,3,4) by (rule retry_one_status_keeps)
  moreover have "files (snd sw1) f \<noteq> None"
    using one Cons.prems(4) by (rule retry_one_status_files_mono)
  ultimately show ?case
    using Cons.IH [OF rest] Cons.prems(3) by simp
qed

text \<open>
  C10. In the retry loop a URL whose derived file exists changes nothing: the document
  and the world stay as they are. A run on a status document either returns or is
  ended by the \<open>OSError\<close> of a write, and it returns whenever every path can be opened
  for writing. When it returns, \<open>skipped\<close> is as it was, and an entry of \<open>errors\<close> whose
  file exists when the run starts is still an entry of \<open>errors\<close>, unchanged, in the
  document the run leaves; when it is ended, the status file is as it was.
\<close>

theorem retry_existing_file_kept:
  assumes "files w status_file = Some c"
    and "json_load load c = Some (status_json st)"
  shows "(\<forall>w'. retry_failed_downloads load net status_file w = (Returned, w') \<longrightarrow>
        (\<exists>st'. (\<exists>c'. files w' status_file = Some c' \<and> json_load load c' = Some (status_json st'))
          \<and> skipped st' = skipped st
          \<and> (\<forall>e\<in>set (errors st). \<forall>f. construct_file_name (fst e) = Some f \<and> files w f \<noteq> None
                \<longrightarrow> e \<in> set (errors st'))))
      \<and> (\<forall>err w'. retry_failed_downloads load net status_file w = (Uncaught err, w') \<longrightarrow>
            err = OSError \<and> files w' status_file = Some c)
      \<and> (fst (retry_failed_downloads load net status_file w) = Returned
            \<or> fst (retry_failed_downloads load net status_file w) = Uncaught OSError)
      \<and> ((\<forall>p. writable w p) \<longrightarrow> fst (retry_failed_downloads load net status_file w) = Returned)
      \<and> (\<forall>url f doc v. construct_file_name url = Some f \<and> files v f \<noteq> None
            \<longrightarrow> retry_one net (JStr url) (doc, v) = Inr (doc, v))"
proof -
  note run = retry_failed_downloads_status [OF assms, of net]
  have step: "\<forall>url f doc v. construct_file_name url = Some f \<and> files v f \<noteq> None
      \<longrightarrow> retry_one net (JStr url) (doc, v) = Inr (doc, v)"
    by simp
  show ?thesis
  proof (cases "errors st = []")
    case True
    then have r: "retry_failed_downloads load net status_file w = (Returned, w)"
      using run by simp
    have "\<exists>st'. (\<exists>c'. files w status_file = Some c' \<and> json_load load c' = Some (status_json st'))
        \<and> skipped st' = skipped st
        \<and> (\<forall>e\<in>set (errors st). \<forall>f. construct_file_name (fst e) = Some f \<and> files w f \<noteq> None
              \<longrightarrow> e \<in> set (errors st'))"
      using assms by (intro exI [of _ st]) simp
    then show ?thesis
      using r step by simp
  next
    case False
    let ?loop = "retry_loop_status net (map fst (errors st)) (st, w)"
    show ?thesis
    proof (cases ?loop)
      case (Inl ew)
      obtain err w1 where ew: "ew = (err, w1)"
        by (cases ew)
      have r: "retry_failed_downloads load net status_file w = (Uncaught err, w1)"
        using run False Inl ew by simp
      have os: "err = OSError"
        using Inl ew retry_loop_status_error by blast
      have "files (world_of ?loop) status_file = Some c"
        using assms(1) by (intro retry_loop_status_existing) simp
      then have kept: "files w1 status_file = Some c"
        using Inl ew by (simp add: world_of_def)
      have "\<not> (\<forall>p. writable w p)"
        using retry_loop_status_total [of "(st, w)" net "map fst (errors st)"] Inl by auto
      then show ?thesis
        using r os kept step by simp
    next
      case (Inr sw)
      obtain st1 w1 where sw: "sw = (st1, w1)"
        by (cases sw)
      have loop: "?loop = Inr (st1, w1)"
        using Inr sw by simp
      have sk: "skipped st1 = skipped st"
        using retry_loop_status_skipped [OF loop] by simp
      have keep: "\<forall>e\<in>set (errors st). \<forall>f. construct_file_name (fst e) = Some f \<and> files w f \<noteq> None
          \<longrightarrow> e \<in> set (errors st1)"
        using retry_loop_status_keeps [OF loop] by auto
      have wr: "writable w1 = writable w"
        using retry_loop_status_writable [OF loop] by simp
      have "files (world_of ?loop) status_file = Some c"
        using assms(1) by (intro retry_loop_status_existing) simp
      then have kept: "files w1 status_file = Some c"
        using loop by (simp add: world_of_def)
      show ?thesis
      proof (cases "writable w1 status_file")
        case True
        let ?w' = "w1\<lparr>files := (files w1)(status_file \<mapsto> Document (status_json st1))\<rparr>"
        have r: "retry_failed_downloads load net status_file w = (Returned, ?w')"
          using run False loop True by simp
        have "\<exists>st'. (\<exists>c'. files ?w' status_file = Some c'
              \<and> json_load load c' = Some (status_json st'))
            \<and> skipped st' = skipped st
            \<and> (\<forall>e\<in>set (errors st). \<forall>f. construct_file_name (fst e) = Some f \<and> files w f \<noteq> None
                  \<longrightarrow> e \<in> set (errors st'))"
          using sk keep by (intro exI [of _ st1]) simp
        then show ?thesis
          using r step by simp
      next
        case False
        have r: "retry_failed_downloads load net status_file w = (Uncaught OSError, w1)"
          using run \<open>errors st \<noteq> []\<close> loop False by simp
        have "\<not> (\<forall>p. writable w p)"
          using False wr by auto
        then show ?thesis
          using r kept step by simp
      qed
    qed
  qed
qed

theorem retry_existing_file_kept_witness:
  "\<exists>st' w'. retry_failed_downloads no_json net_ok ''status_b.json''
        (empty_world\<lparr>files := [''status_b.json'' \<mapsto> Document (status_json one_error),
                               ''1_a'' \<mapsto> Body ''old'']\<rparr>) = (Returned, w')
      \<and> files w' ''status_b.json'' = Some (Document (status_json st'))
      \<and> skipped st' = [''0_z'']
      \<and> (''/web/1if_/a'', ''timeout'') \<in> set (errors st')"
proof -
  let ?w = "empty_world\<lparr>files := [''status_b.json'' \<mapsto> Document (status_json one_error),
                               ''1_a'' \<mapsto> Body ''old'']\<rparr>"
  let ?r = "retry_failed_downloads no_json net_ok ''status_b.json'' ?w"
  have a: "files ?w ''status_b.json'' = Some (Document (status_json one_error))"
    by simp
  have b: "json_load no_json (Document (status_json one_error)) = Some (status_json one_error)"
    by simp
  note t = retry_existing_file_kept [OF a b, of net_ok]
  have "\<forall>p. writable ?w p"
    by (simp add: empty_world_def)
  then have "fst ?r = Returned"
    using t by blast
  then obtain w' where r: "?r = (Returned, w')"
    by (cases ?r) simp
  then obtain st' where
    d: "\<exists>c'. files w' ''status_b.json'' = Some c' \<and> json_load no_json c' = Some (status_json st')"
    and s: "skipped st' = skipped one_error"
    and k: "\<forall>e\<in>set (errors one_error). \<forall>f. construct_file_name (fst e) = Some f \<and> files ?w f \<noteq> None
            \<longrightarrow> e \<in> set (errors st')"
    using t by blast
  have "(''/web/1if_/a'', ''timeout'') \<in> set (errors one_error)"
    by (simp add: one_error_def)
  moreover have "construct_file_name (fst (''/web/1if_/a'', ''timeout'')) = Some ''1_a''"
    by (simp add: file_name_1_a)
  moreover have "files ?w ''1_a'' \<noteq> None"
    by simp
  ultimately have e: "(''/web/1if_/a'', ''timeout'') \<in> set (errors st')"
    using k by blast
  obtain c' where c: "files w' ''status_b.json'' = Some c'" "json_load no_json c' = Some (status_json st')"
    using d by blast
  have "c' = Document (status_json st')"
    using c(2) by (cases c') (simp_all add: no_json_def)
  then show ?thesis
    using r c(1) s e by (intro exI [of _ st'] exI [of _ w']) (simp add: one_error_def)
qed

text \<open>
  C4. On a status document with exactly two error entries, where the download of the
  first URL now succeeds (its file does not exist, the request succeeds and the file can
  be written) and that of the second fails again (its file, another one, does not
  exist and the request fails), and the status file can be written,
  \<open>retry_failed_downloads\<close> appends the file name of the first URL to \<open>downloaded\<close>,
  removes that URL from \<open>errors\<close> and leaves the entry of the second URL in \<open>errors\<close>,
  in its place among the entries that remain, with the new failure message.
\<close>

theorem retry_two_entries:
  assumes "files w status_file = Some c"
    and "json_load load c = Some (status_json st)"
    and "errors st = [(u1, m1), (u2, m2)]"
    and "construct_file_name u1 = Some f1"
    and "construct_file_name u2 = Some f2"
    and "f1 \<noteq> f2"
    and "files w f1 = None"
    and "files w f2 = None"
    and "net (length (requests w)) u1 = Ok body"
    and "net (Suc (length (requests w))) u2 = Failed msg"
    and "writable w f1"
    and "writable w status_file"
  shows "\<exists>w'. retry_failed_downloads load net status_file w = (Returned, w')
      \<and> files w' status_file =
          Some (Document (status_json
            \<lparr>downloaded = downloaded st @ [f1], skipped = skipped st, errors = [(u2, msg)]\<rparr>))
      \<and> requests w' = requests w @ [u1, u2]"
proof -
  have ne: "u1 \<noteq> u2"
    using assms(4,5,6) by auto
  have one: "retry_one_status net u1 (st, w) =
      Inr (st\<lparr>downloaded := downloaded st @ [f1], errors := [(u2, m2)]\<rparr>,
           w\<lparr>files := (files w)(f1 \<mapsto> Body body), requests := requests w @ [u1]\<rparr>)"
    using assms(3,4,7,9,11) ne by (simp add: retry_one_status_def Let_def)
  have two: "retry_one_status net u2
       (st\<lparr>downloaded := downloaded st @ [f1], errors := [(u2, m2)]\<rparr>,
        w\<lparr>files := (files w)(f1 \<mapsto> Body body), requests := requests w @ [u1]\<rparr>) =
      Inr (st\<lparr>downloaded := downloaded st @ [f1], errors := [(u2, msg)]\<rparr>,
           w\<lparr>files := (files w)(f1 \<mapsto> Body body), requests := requests w @ [u1, u2]\<rparr>)"
    using assms(5,6,8,10) by (simp add: retry_one_status_def Let_def)
  have loop: "retry_loop_status net (map fst (errors st)) (st, w) =
      Inr (st\<lparr>downloaded := downloaded st @ [f1], errors := [(u2, msg)]\<rparr>,
           w\<lparr>files := (files w)(f1 \<mapsto> Body body), requests := requests w @ [u1, u2]\<rparr>)"
    by (simp add: assms(3) one two)
  have st: "st\<lparr>downloaded := downloaded st @ [f1], errors := [(u2, msg)]\<rparr> =
      \<lparr>downloaded = downloaded st @ [f1], skipped = skipped st, errors = [(u2, msg)]\<rparr>"
    by simp
  have "errors st \<noteq> []"
    by (simp add: assms(3))
  then show ?thesis
    using retry_failed_downloads_status [OF assms(1,2), of net] loop st assms(12) by simp
qed

theorem retry_two_entries_witness:
  "\<exists>w'. retry_failed_downloads no_json net_ok_then_fail ''status_b.json''
        (empty_world\<lparr>files := [''status_b.json'' \<mapsto> Document (status_json two_errors)]\<rparr>)
      = (Returned, w')
    \<and> files w' ''status_b.json'' = Some (Document (status_json two_errors_after))
    \<and> requests w' = [''/web/1if_/a'', ''/web/2if_/b'']"
proof -
  let ?w = "empty_world\<lparr>files := [''status_b.json'' \<mapsto> Document (status_json two_errors)]\<rparr>"
  have h1: "files ?w ''status_b.json'' = Some (Document (status_json two_errors))"
    by simp
  have h2: "json_load no_json (Document (status_json two_errors)) = Some (status_json two_errors)"
    by simp
  have h3: "errors two_errors = [(''/web/1if_/a'', ''timeout''), (''/web/2if_/b'', ''timeout'')]"
    by (simp add: two_errors_def)
  have h6: "''1_a'' \<noteq> ''2_b''"
    by simp
  have h7: "files ?w ''1_a'' = None" and h8: "files ?w ''2_b'' = None"
    by (simp_all add: empty_world_def)
  have h9: "net_ok_then_fail (length (requests ?w)) ''/web/1if_/a'' = Ok ''body''"
    by (simp add: net_ok_then_fail_def empty_world_def)
  have h10: "net_ok_then_fail (Suc (length (requests ?w))) ''/web/2if_/b'' = Failed ''HTTP 503''"
    by (simp add: net_ok_then_fail_def)
  have h11: "writable ?w ''1_a''" and h12: "writable ?w ''status_b.json''"
    by (simp_all add: empty_world_def)
  show ?thesis
    using retry_two_entries [OF h1 h2 h3 file_name_1_a file_name_2_b h6 h7 h8 h9 h10 h11 h12]
    by (simp add: two_errors_def two_errors_after_def empty_world_def)
qed


















section \<open>A write that fails\<close>

text \<open>
  A timestamp with a slash gives a file name in a directory that does not exist. The
  request is made, \<open>open\<close> raises, and \<open>downloader\<close> ends before \<open>create_status_file\<close>: no
  file is written. The retry runner ends in the same way and leaves its status file as
  it was.
\<close>

lemma file_name_with_slash: "construct_file_name ''/web/2020/01if_/a'' = Some ''2020/01_a''"
  by (simp add: construct_file_name_def slice_def split_query_def basename_def
      sanitize_def allowed_char_def)

lemma downloader_write_fails:
  "downloader net_ok [''/web/2020/01if_/a''] ''b'' flat_world
     = Inl (OSError, flat_world\<lparr>requests := [''/web/2020/01if_/a'']\<rparr>)"
  by (simp add: downloader_def download_one_def file_name_with_slash flat_world_def net_ok_def
      init_status_def Let_def)

lemma retry_write_fails:
  "retry_failed_downloads no_json net_ok ''status_b.json''
     (flat_world\<lparr>files := [''status_b.json'' \<mapsto> Document (status_json
        \<lparr>downloaded = [], skipped = [], errors = [(''/web/2020/01if_/a'', ''timeout'')]\<rparr>)]\<rparr>)
   = (Uncaught OSError,
      flat_world\<lparr>files := [''status_b.json'' \<mapsto> Document (status_json
        \<lparr>downloaded = [], skipped = [], errors = [(''/web/2020/01if_/a'', ''timeout'')]\<rparr>)],
        requests := [''/web/2020/01if_/a'']\<rparr>)"
proof -
  let ?st = "\<lparr>downloaded = [], skipped = [], errors = [(''/web/2020/01if_/a'', ''timeout'')]\<rparr>"
  let ?w = "flat_world\<lparr>files := [''status_b.json'' \<mapsto> Document (status_json ?st)]\<rparr>"
  have a: "files ?w ''status_b.json'' = Some (Document (status_json ?st))"
    by simp
  have b: "json_load no_json (Document (status_json ?st)) = Some (status_json ?st)"
    by simp
  show ?thesis
    unfolding retry_failed_downloads_status [OF a b]
    by (simp add: retry_one_status_def file_name_with_slash flat_world_def net_ok_def Let_def)
qed

end
